theory Spec2Isabelle
  imports Complex_Main
begin

section \<open>The game loop of engine.js\<close>

text \<open>
  The embedding follows \<^verbatim>\<open>src/js/engine.js\<close>. The variables the engine closes over
  (\<^verbatim>\<open>gameStatus\<close>, \<^verbatim>\<open>lastTime\<close>), the globals of app.js it reads and writes
  (\<^verbatim>\<open>player\<close>, \<^verbatim>\<open>allEnemies\<close>), the listener lists of the document, the drawing
  context and the queue of the animation-frame primitive are the fields of one state
  record, passed through every function. Numbers of JavaScript are modelled by the
  reals (coordinates, \<^verbatim>\<open>dt\<close>) and by the integers (the millisecond clock); NaN, the
  infinities and rounding are outside the model.
\<close>

subsection \<open>Data\<close>

text \<open>\<^verbatim>\<open>gameStatus\<close> holds one of the strings 'new game', 'in game', 'game over'.\<close>

datatype phase = NewGame | InGame | GameOver

text \<open>Of an entity of app.js the engine reads and writes the fields x and y only.\<close>

record entity =
  pos_x :: real
  pos_y :: real

text \<open>
  A listener is a function object. \<open>Input\<close> is the global function \<^verbatim>\<open>input\<close> of
  app.js; the other three are the arrow functions that update and reset create, one
  new object per evaluation, told apart by the number of the evaluation.
\<close>

datatype listener = Input | StartInput nat | GameoverInput nat | GameStartInput nat

text \<open>The operations on the 2D context, in the order they are performed.\<close>

datatype ctx_call =
    ClearRect real real real real
  | DrawImage string real real
  | FillStyle string
  | Font string
  | TextAlign string
  | FillText string real real

text \<open>
  What one invocation of an engine function does itself, in order: the engine functions
  it calls (each with what that call did in turn), the assignments to \<^verbatim>\<open>lastTime\<close>
  and the requests for an animation frame.
\<close>

datatype action =
    Call_update real "action list"
  | Call_render
  | Call_updateEntities real
  | Call_checkCollisions "action list"
  | Call_init "action list"
  | Call_main "action list"
  | Set_lastTime int
  | Call_requestAnimationFrame

record state =
  gameStatus :: phase
  lastTime :: int
  player :: entity
  allEnemies :: "entity list"
  listeners :: "string \<Rightarrow> listener list"
  closures :: nat
  clock_reads :: nat
  frame_requests :: nat
  ctx :: "ctx_call list"

text \<open>
  The collaborators that are not part of engine.js: the clock (the k-th reading of
  \<^verbatim>\<open>Date.now()\<close>), the update and render methods of the entities, and the key-up
  handler \<^verbatim>\<open>input\<close> of app.js, which moves the player.
\<close>

record env =
  date_now :: "nat \<Rightarrow> int"
  update_enemy :: "real \<Rightarrow> entity \<Rightarrow> entity"
  update_player :: "entity \<Rightarrow> entity"
  render_enemy :: "entity \<Rightarrow> ctx_call list"
  render_player :: "entity \<Rightarrow> ctx_call list"
  input :: "nat \<Rightarrow> entity \<Rightarrow> entity"

definition canvas_width :: real where
  "canvas_width = 505"

definition canvas_height :: real where
  "canvas_height = 606"

subsection \<open>Listeners of the document\<close>

text \<open>
  \<^verbatim>\<open>addEventListener\<close> appends the listener unless the same function object is
  already registered for the type; \<^verbatim>\<open>removeEventListener\<close> takes it out.
\<close>

definition addEventListener :: "string \<Rightarrow> listener \<Rightarrow> state \<Rightarrow> state" where
  "addEventListener ty l s =
     (if l \<in> set (listeners s ty) then s
      else s\<lparr>listeners := (listeners s)(ty := listeners s ty @ [l])\<rparr>)"

definition removeEventListener :: "string \<Rightarrow> listener \<Rightarrow> state \<Rightarrow> state" where
  "removeEventListener ty l s = s\<lparr>listeners := (listeners s)(ty := remove1 l (listeners s ty))\<rparr>"

text \<open>The bodies of the three arrow functions; the argument is the key code of the event.\<close>

definition startInput :: "nat \<Rightarrow> state \<Rightarrow> state" where
  "startInput key s = (if key = 13 then s\<lparr>gameStatus := InGame\<rparr> else s)"

definition gameoverInput :: "nat \<Rightarrow> state \<Rightarrow> state" where
  "gameoverInput key s = (if key = 13 then s\<lparr>gameStatus := InGame\<rparr> else s)"

text \<open>
  \<^verbatim>\<open>gameStartInput\<close> reads \<^verbatim>\<open>event.which || event.keyCode\<close>; for a keyboard event
  both hold the key code, and a code of 0 falls through to the same value.
\<close>

definition gameStartInput :: "nat \<Rightarrow> state \<Rightarrow> state" where
  "gameStartInput keyCode s =
     (let key = (if keyCode \<noteq> 0 then keyCode else keyCode)
      in if key = 13 then s\<lparr>gameStatus := InGame\<rparr> else s)"

fun invoke :: "env \<Rightarrow> nat \<Rightarrow> listener \<Rightarrow> state \<Rightarrow> state" where
  "invoke e key Input s = s\<lparr>player := input e key (player s)\<rparr>"
| "invoke e key (StartInput _) s = startInput key s"
| "invoke e key (GameoverInput _) s = gameoverInput key s"
| "invoke e key (GameStartInput _) s = gameStartInput key s"

text \<open>An event of a type runs the listeners registered for it, in order of registration.\<close>

definition dispatchEvent :: "env \<Rightarrow> string \<Rightarrow> nat \<Rightarrow> state \<Rightarrow> state" where
  "dispatchEvent e ty key s = fold (invoke e key) (listeners s ty) s"

subsection \<open>Rendering\<close>

definition rowImages :: "string list" where
  "rowImages =
     [''images/water-block.png'', ''images/stone-block.png'', ''images/stone-block.png'',
      ''images/stone-block.png'', ''images/grass-block.png'', ''images/grass-block.png'']"

definition numRows :: nat where
  "numRows = 6"

definition numCols :: nat where
  "numCols = 5"

text \<open>The two nested loops over the rows and columns of the board.\<close>

definition for_tiles :: "(nat \<Rightarrow> nat \<Rightarrow> ctx_call list) \<Rightarrow> ctx_call list" where
  "for_tiles body = concat (map (\<lambda>row. concat (map (\<lambda>col. body row col) [0..<numCols])) [0..<numRows])"

definition drawTile :: "nat \<Rightarrow> nat \<Rightarrow> ctx_call" where
  "drawTile row col = DrawImage (rowImages ! row) (real col * 101) (real row * 83)"

definition renderEntities :: "env \<Rightarrow> state \<Rightarrow> ctx_call list" where
  "renderEntities e s = concat (map (render_enemy e) (allEnemies s)) @ render_player e (player s)"

definition render_calls :: "env \<Rightarrow> state \<Rightarrow> ctx_call list" where
  "render_calls e s =
     ClearRect 0 0 canvas_width canvas_height #
     (case gameStatus s of
        NewGame \<Rightarrow>
          for_tiles (\<lambda>row col.
            [drawTile row col,
             FillStyle ''black'', Font ''40px Comic Sans MS'', TextAlign ''center'',
             FillText ''FEND Arcade Game'' (canvas_width / 2) (canvas_height / 3),
             FillStyle ''black'', Font ''20px Comic Sans MS'', TextAlign ''center'',
             FillText ''Press Enter To Start'' (canvas_width / 2) (canvas_height / 2.5),
             FillStyle ''black'', Font ''16px Comic Sans MS'', TextAlign ''center'',
             FillText ''Use the arrow keys to move'' (canvas_width / 2) (canvas_height / 1.7),
             FillText ''Avoid the bugs to win the game!'' (canvas_width / 2) (canvas_height / 1.5),
             FillStyle ''Black'', Font ''20px Comic Sans MS'', TextAlign ''center'',
             FillText ''Good Luck!'' (canvas_width / 2) (canvas_height / 1.2)])
      | InGame \<Rightarrow>
          for_tiles (\<lambda>row col. [drawTile row col]) @ renderEntities e s
      | GameOver \<Rightarrow>
          for_tiles (\<lambda>row col.
            [drawTile row col,
             FillStyle ''black'', Font ''40px Comic Sans MS'', TextAlign ''center'',
             FillText ''CONGRATULATIONS!'' (canvas_width / 2) (canvas_height / 3),
             FillText ''You won!'' (canvas_width / 2) (canvas_height / 2.3),
             FillStyle ''black'', Font ''20px Comic Sans MS'', TextAlign ''center'',
             FillText ''Press Enter To Restart'' (canvas_width / 2) (canvas_height / 2)]))"

definition render :: "env \<Rightarrow> state \<Rightarrow> state" where
  "render e s = s\<lparr>ctx := ctx s @ render_calls e s\<rparr>"

subsection \<open>Updating\<close>

definition updateEntities :: "env \<Rightarrow> real \<Rightarrow> state \<Rightarrow> state" where
  "updateEntities e dt s =
     s\<lparr>allEnemies := map (update_enemy e dt) (allEnemies s),
       player := update_player e (player s)\<rparr>"

text \<open>The test of checkCollisions, on the player and one enemy.\<close>

definition collides :: "entity \<Rightarrow> entity \<Rightarrow> bool" where
  "collides p enemy \<longleftrightarrow>
     pos_x p < pos_x enemy + 60 \<and>
     pos_x p + 37 > pos_x enemy \<and>
     pos_y p < pos_y enemy + 25 \<and>
     30 + pos_y p > pos_y enemy"

text \<open>One round of the forEach of checkCollisions: the enemy, then the player so far.\<close>

definition hit :: "entity \<Rightarrow> entity \<Rightarrow> entity" where
  "hit enemy p = (if collides p enemy then p\<lparr>pos_x := 200, pos_y := 380\<rparr> else p)"

definition requestAnimationFrame :: "state \<Rightarrow> state" where
  "requestAnimationFrame s = s\<lparr>frame_requests := frame_requests s + 1\<rparr>"

text \<open>
  main, init, update and checkCollisions call each other: checkCollisions calls
  \<^verbatim>\<open>this.init()\<close> when the player has won (the arrow functions take \<^verbatim>\<open>this\<close> from
  the enclosing function, called plainly in a sloppy-mode script, so it is the global
  object, where the assignment \<^verbatim>\<open>init = ...\<close> put the function). Each returns what it
  did and the new state.
\<close>

function main :: "env \<Rightarrow> state \<Rightarrow> action list \<times> state"
  and init :: "env \<Rightarrow> state \<Rightarrow> action list \<times> state"
  and update :: "env \<Rightarrow> real \<Rightarrow> state \<Rightarrow> action list \<times> state"
  and checkCollisions :: "env \<Rightarrow> state \<Rightarrow> action list \<times> state"
where
  "main e s =
     (let now = date_now e (clock_reads s);
          dt = real_of_int (now - lastTime s) / 1000.0;
          (did, s1) = update e dt (s\<lparr>clock_reads := clock_reads s + 1\<rparr>);
          s2 = render e s1;
          s3 = s2\<lparr>lastTime := now\<rparr>;
          s4 = requestAnimationFrame s3
      in ([Call_update dt did, Call_render, Set_lastTime now, Call_requestAnimationFrame], s4))"
| "init e s =
     (let now = date_now e (clock_reads s);
          (did, s1) = main e (s\<lparr>lastTime := now, clock_reads := clock_reads s + 1\<rparr>)
      in ([Set_lastTime now, Call_main did], s1))"
| "update e dt s =
     (case gameStatus s of
        NewGame \<Rightarrow>
          (let s1 = removeEventListener ''keyup'' Input s;
               l = StartInput (closures s1);
               s2 = addEventListener ''keydown'' l (s1\<lparr>closures := closures s1 + 1\<rparr>)
           in ([], s2))
      | InGame \<Rightarrow>
          (let s1 = addEventListener ''keyup'' Input s;
               s2 = updateEntities e dt s1;
               (did, s3) = checkCollisions e s2
           in ([Call_updateEntities dt, Call_checkCollisions did], s3))
      | GameOver \<Rightarrow>
          (let s1 = removeEventListener ''keyup'' Input s;
               l = GameoverInput (closures s1);
               s2 = addEventListener ''keydown'' l (s1\<lparr>closures := closures s1 + 1\<rparr>)
           in ([], s2)))"
| "checkCollisions e s =
     (let s1 = s\<lparr>player := fold hit (allEnemies s) (player s)\<rparr>
      in if pos_y (player s1) < 0
         then (let s2 = s1\<lparr>player := (player s1)\<lparr>pos_x := 200, pos_y := 380\<rparr>,
                          gameStatus := GameOver\<rparr>;
                   (did, s3) = init e s2
               in ([Call_init did], s3))
         else ([], s1))"
  by pat_completeness auto
termination
  apply (relation "measure (\<lambda>c. case c of
      Inl (Inl (e, s)) \<Rightarrow> (if gameStatus s = InGame then 8 else 3)
    | Inl (Inr (e, s)) \<Rightarrow> (if gameStatus s = InGame then 9 else 4)
    | Inr (Inl (e, dt, s)) \<Rightarrow> (if gameStatus s = InGame then 7 else 2)
    | Inr (Inr (e, s)) \<Rightarrow> 6)")
  apply auto
  done

declare main.simps [simp del] init.simps [simp del] update.simps [simp del]
  checkCollisions.simps [simp del]

subsection \<open>reset\<close>

text \<open>
  reset is defined by the engine and called nowhere in it. It turns the movement
  listener off, registers one more key-down arrow function and draws, without clearing,
  a board with a text for the 'new game' and the 'game over' status.
\<close>

definition reset :: "state \<Rightarrow> state" where
  "reset s =
     (let s1 = removeEventListener ''keyup'' Input s;
          l = GameStartInput (closures s1);
          s2 = addEventListener ''keydown'' l (s1\<lparr>closures := closures s1 + 1\<rparr>)
      in s2\<lparr>ctx := ctx s2 @
           (case gameStatus s2 of
              NewGame \<Rightarrow>
                for_tiles (\<lambda>row col.
                  [drawTile row col,
                   FillStyle ''white'', Font ''40px Comic Sans MS'', TextAlign ''center'',
                   FillText ''Let's Play Frogger!'' (canvas_width / 2) (canvas_height / 5.5),
                   FillStyle ''white'', Font ''20px Comic Sans MS'', TextAlign ''center'',
                   FillText ''Press Enter To Start'' (canvas_width / 2) (canvas_height / 4),
                   FillStyle ''white'', Font ''16px Comic Sans MS'', TextAlign ''center'',
                   FillText ''Use the arrow keys to move'' (canvas_width / 2) (canvas_height / 3.3),
                   FillText ''Reach the water and collect gems to score'' (canvas_width / 2)
                     (canvas_height / 3.0),
                   FillText ''Difficulty increases when you reach water'' (canvas_width / 2)
                     (canvas_height / 2.75),
                   FillText ''Collect hearts for extra lives'' (canvas_width / 2)
                     (canvas_height / 2.55),
                   FillText ''Avoid the bugs to stay alive'' (canvas_width / 2)
                     (canvas_height / 2.37),
                   FillStyle ''white'', Font ''20px Comic Sans MS'', TextAlign ''center'',
                   FillText ''Good Luck!'' (canvas_width / 2) (canvas_height / 2.1)])
            | InGame \<Rightarrow> []
            | GameOver \<Rightarrow>
                for_tiles (\<lambda>row col.
                  [drawTile row col,
                   FillStyle ''white'', Font ''40px Comic Sans MS'', TextAlign ''center'',
                   FillText ''Game Over!'' (canvas_width / 2) (canvas_height / 3),
                   FillStyle ''white'', Font ''20px Comic Sans MS'', TextAlign ''center'',
                   FillText ''Press Enter To Restart'' (canvas_width / 2) (canvas_height / 2.6)]))\<rparr>)"

subsection \<open>The run of the program\<close>

text \<open>
  What the browser does to the engine: the resources are ready and the callback init
  runs; one callback handed to requestAnimationFrame runs (and leaves the queue); a key
  goes down or up.
\<close>

datatype occurrence = Ready | Frame | KeyDown nat | KeyUp nat

fun step :: "env \<Rightarrow> occurrence \<Rightarrow> state \<Rightarrow> state" where
  "step e Ready s = snd (init e s)"
| "step e Frame s =
     (if frame_requests s = 0 then s
      else snd (main e (s\<lparr>frame_requests := frame_requests s - 1\<rparr>)))"
| "step e (KeyDown key) s = dispatchEvent e ''keydown'' key s"
| "step e (KeyUp key) s = dispatchEvent e ''keyup'' key s"

definition run :: "env \<Rightarrow> occurrence list \<Rightarrow> state \<Rightarrow> state" where
  "run e os s = fold (step e) os s"

text \<open>
  The state when the script has been read: status 'new game', nothing requested, nothing
  drawn, and the movement listener of app.js registered (update speaks of turning
  "the keypress event listener in app.js" off). \<^verbatim>\<open>lastTime\<close> is declared without a
  value; init assigns it before main reads it.
\<close>

definition boot :: "entity \<Rightarrow> entity list \<Rightarrow> state" where
  "boot p es =
     \<lparr>gameStatus = NewGame, lastTime = 0, player = p, allEnemies = es,
      listeners = (\<lambda>ty. [])(''keyup'' := [Input]), closures = 0, clock_reads = 0,
      frame_requests = 0, ctx = []\<rparr>"

text \<open>
  Every arrow function registered for key-down was created earlier than the next one
  will be: a newly created one is not yet in the list.
\<close>

fun created_before :: "nat \<Rightarrow> listener \<Rightarrow> bool" where
  "created_before n Input = True"
| "created_before n (StartInput k) = (k < n)"
| "created_before n (GameoverInput k) = (k < n)"
| "created_before n (GameStartInput k) = (k < n)"

definition closures_counted :: "state \<Rightarrow> bool" where
  "closures_counted s = list_all (created_before (closures s)) (listeners s ''keydown'')"

subsection \<open>The hitboxes, as the specification words them\<close>

text \<open>
  The enemy's hitbox has width 60 and height 25 from its x, y; the player's has width 37
  and height 30 from its x, y. Both are taken without their border.
\<close>

definition player_hitbox :: "entity \<Rightarrow> (real \<times> real) set" where
  "player_hitbox p = {(a, b). pos_x p < a \<and> a < pos_x p + 37 \<and> pos_y p < b \<and> b < pos_y p + 30}"

definition enemy_hitbox :: "entity \<Rightarrow> (real \<times> real) set" where
  "enemy_hitbox en = {(a, b). pos_x en < a \<and> a < pos_x en + 60 \<and> pos_y en < b \<and> b < pos_y en + 25}"

text \<open>A clock and entities to run the engine on: 16 ms a reading, enemies moving right.\<close>

definition demo_env :: env where
  "demo_env =
     \<lparr>date_now = (\<lambda>k. 1000 + 16 * int k),
      update_enemy = (\<lambda>dt en. en\<lparr>pos_x := pos_x en + 100 * dt\<rparr>),
      update_player = (\<lambda>p. p),
      render_enemy = (\<lambda>en. [DrawImage ''images/enemy-bug.png'' (pos_x en) (pos_y en)]),
      render_player = (\<lambda>p. [DrawImage ''images/char-boy.png'' (pos_x p) (pos_y p)]),
      input = (\<lambda>key p. if key = 38 then p\<lparr>pos_y := pos_y p - 83\<rparr> else p)\<rparr>"

text \<open>A state in the middle of a game, with the player and the enemies as given.\<close>

definition playing :: "entity \<Rightarrow> entity list \<Rightarrow> state" where
  "playing p es =
     \<lparr>gameStatus = InGame, lastTime = 1016, player = p, allEnemies = es,
      listeners = (\<lambda>ty. [])(''keydown'' := [StartInput 0]), closures = 1, clock_reads = 2,
      frame_requests = 1, ctx = []\<rparr>"

text \<open>update, called once for every dt of a list, with nothing else happening in between.\<close>

definition updates :: "env \<Rightarrow> real list \<Rightarrow> state \<Rightarrow> state" where
  "updates e dts s = fold (\<lambda>dt s. snd (update e dt s)) dts s"

text \<open>
  The status before a key event and after each listener it runs, in order; and how often
  a list of statuses goes from one status straight to another.
\<close>

fun statuses :: "env \<Rightarrow> nat \<Rightarrow> listener list \<Rightarrow> state \<Rightarrow> phase list" where
  "statuses e key [] s = [gameStatus s]"
| "statuses e key (l # ls) s = gameStatus s # statuses e key ls (invoke e key l s)"

fun transitions :: "phase \<Rightarrow> phase \<Rightarrow> phase list \<Rightarrow> nat" where
  "transitions a b (x # y # zs) = (if x = a \<and> y = b then 1 else 0) + transitions a b (y # zs)"
| "transitions a b zs = 0"

section \<open>Properties\<close>

subsection \<open>The engine functions, one step unfolded\<close>

lemma hit_start: "hit enemy (p\<lparr>pos_x := 200, pos_y := 380\<rparr>) = p\<lparr>pos_x := 200, pos_y := 380\<rparr>"
  by (simp add: hit_def)

lemma fold_hit_start:
  "fold hit es (p\<lparr>pos_x := 200, pos_y := 380\<rparr>) = p\<lparr>pos_x := 200, pos_y := 380\<rparr>"
  by (induction es) (simp_all add: hit_start)

lemma fold_hit_miss: "\<forall>enemy\<in>set es. \<not> collides p enemy \<Longrightarrow> fold hit es p = p"
  by (induction es) (simp_all add: hit_def)

lemma fold_hit_collision:
  "\<exists>enemy\<in>set es. collides p enemy \<Longrightarrow> fold hit es p = p\<lparr>pos_x := 200, pos_y := 380\<rparr>"
proof (induction es)
  case Nil
  then show ?case by simp
next
  case (Cons en es)
  show ?case
  proof (cases "collides p en")
    case True
    then have "hit en p = p\<lparr>pos_x := 200, pos_y := 380\<rparr>" by (simp add: hit_def)
    then show ?thesis by (simp add: fold_hit_start)
  next
    case False
    with Cons show ?thesis by (simp add: hit_def)
  qed
qed

lemma update_NewGame:
  "gameStatus s = NewGame \<Longrightarrow>
   update e dt s =
     ([], addEventListener ''keydown'' (StartInput (closures s))
            ((removeEventListener ''keyup'' Input s)\<lparr>closures := closures s + 1\<rparr>))"
  by (simp add: update.simps removeEventListener_def)

lemma update_GameOver:
  "gameStatus s = GameOver \<Longrightarrow>
   update e dt s =
     ([], addEventListener ''keydown'' (GameoverInput (closures s))
            ((removeEventListener ''keyup'' Input s)\<lparr>closures := closures s + 1\<rparr>))"
  by (simp add: update.simps removeEventListener_def)

lemma update_InGame:
  "gameStatus s = InGame \<Longrightarrow>
   update e dt s =
     ([Call_updateEntities dt,
       Call_checkCollisions
         (fst (checkCollisions e (updateEntities e dt (addEventListener ''keyup'' Input s))))],
      snd (checkCollisions e (updateEntities e dt (addEventListener ''keyup'' Input s))))"
  by (simp add: update.simps split: prod.split)

lemma checkCollisions_no_win:
  "\<not> pos_y (fold hit (allEnemies s) (player s)) < 0 \<Longrightarrow>
   checkCollisions e s = ([], s\<lparr>player := fold hit (allEnemies s) (player s)\<rparr>)"
  by (simp add: checkCollisions.simps)

lemma checkCollisions_win:
  "pos_y (fold hit (allEnemies s) (player s)) < 0 \<Longrightarrow>
   checkCollisions e s =
     ([Call_init (fst (init e (s\<lparr>player := (fold hit (allEnemies s) (player s))\<lparr>pos_x := 200, pos_y := 380\<rparr>,
                             gameStatus := GameOver\<rparr>)))],
      snd (init e (s\<lparr>player := (fold hit (allEnemies s) (player s))\<lparr>pos_x := 200, pos_y := 380\<rparr>,
                             gameStatus := GameOver\<rparr>)))"
  by (simp add: checkCollisions.simps split: prod.split)

lemma checkCollisions_collision:
  assumes "\<exists>enemy\<in>set (allEnemies s). collides (player s) enemy"
  shows "checkCollisions e s = ([], s\<lparr>player := (player s)\<lparr>pos_x := 200, pos_y := 380\<rparr>\<rparr>)"
proof -
  from assms have "fold hit (allEnemies s) (player s) = (player s)\<lparr>pos_x := 200, pos_y := 380\<rparr>"
    by (rule fold_hit_collision)
  then show ?thesis
    by (simp add: checkCollisions_no_win)
qed

lemma main_unfold:
  "main e s =
     ([Call_update (real_of_int (date_now e (clock_reads s) - lastTime s) / 1000)
         (fst (update e (real_of_int (date_now e (clock_reads s) - lastTime s) / 1000)
                (s\<lparr>clock_reads := clock_reads s + 1\<rparr>))),
       Call_render, Set_lastTime (date_now e (clock_reads s)), Call_requestAnimationFrame],
      requestAnimationFrame
        ((render e (snd (update e (real_of_int (date_now e (clock_reads s) - lastTime s) / 1000)
                (s\<lparr>clock_reads := clock_reads s + 1\<rparr>))))\<lparr>lastTime := date_now e (clock_reads s)\<rparr>))"
  by (simp add: main.simps Let_def split: prod.split)

lemma init_unfold:
  "init e s =
     ([Set_lastTime (date_now e (clock_reads s)),
       Call_main (fst (main e (s\<lparr>lastTime := date_now e (clock_reads s), clock_reads := clock_reads s + 1\<rparr>)))],
      snd (main e (s\<lparr>lastTime := date_now e (clock_reads s), clock_reads := clock_reads s + 1\<rparr>)))"
  by (simp add: init.simps Let_def split: prod.split)

text \<open>init writes lastTime before main reads it: the value it had does not matter.\<close>

lemma init_writes_lastTime_first: "init e (s\<lparr>lastTime := t\<rparr>) = init e s"
  by (simp add: init_unfold)

subsection \<open>Which fields a function leaves alone\<close>

lemma addEventListener_fields [simp]:
  "gameStatus (addEventListener ty l s) = gameStatus s"
  "lastTime (addEventListener ty l s) = lastTime s"
  "player (addEventListener ty l s) = player s"
  "allEnemies (addEventListener ty l s) = allEnemies s"
  "closures (addEventListener ty l s) = closures s"
  "clock_reads (addEventListener ty l s) = clock_reads s"
  "frame_requests (addEventListener ty l s) = frame_requests s"
  "ctx (addEventListener ty l s) = ctx s"
  by (simp_all add: addEventListener_def)

lemma removeEventListener_fields [simp]:
  "gameStatus (removeEventListener ty l s) = gameStatus s"
  "lastTime (removeEventListener ty l s) = lastTime s"
  "player (removeEventListener ty l s) = player s"
  "allEnemies (removeEventListener ty l s) = allEnemies s"
  "closures (removeEventListener ty l s) = closures s"
  "clock_reads (removeEventListener ty l s) = clock_reads s"
  "frame_requests (removeEventListener ty l s) = frame_requests s"
  "ctx (removeEventListener ty l s) = ctx s"
  by (simp_all add: removeEventListener_def)

lemma render_fields [simp]:
  "gameStatus (render e s) = gameStatus s"
  "lastTime (render e s) = lastTime s"
  "player (render e s) = player s"
  "allEnemies (render e s) = allEnemies s"
  "listeners (render e s) = listeners s"
  "closures (render e s) = closures s"
  "clock_reads (render e s) = clock_reads s"
  "frame_requests (render e s) = frame_requests s"
  by (simp_all add: render_def)

lemma requestAnimationFrame_fields [simp]:
  "gameStatus (requestAnimationFrame s) = gameStatus s"
  "lastTime (requestAnimationFrame s) = lastTime s"
  "player (requestAnimationFrame s) = player s"
  "allEnemies (requestAnimationFrame s) = allEnemies s"
  "listeners (requestAnimationFrame s) = listeners s"
  "closures (requestAnimationFrame s) = closures s"
  "clock_reads (requestAnimationFrame s) = clock_reads s"
  "frame_requests (requestAnimationFrame s) = frame_requests s + 1"
  "ctx (requestAnimationFrame s) = ctx s"
  by (simp_all add: requestAnimationFrame_def)

lemma updateEntities_fields [simp]:
  "gameStatus (updateEntities e dt s) = gameStatus s"
  "lastTime (updateEntities e dt s) = lastTime s"
  "listeners (updateEntities e dt s) = listeners s"
  "closures (updateEntities e dt s) = closures s"
  "clock_reads (updateEntities e dt s) = clock_reads s"
  "frame_requests (updateEntities e dt s) = frame_requests s"
  "ctx (updateEntities e dt s) = ctx s"
  by (simp_all add: updateEntities_def)

lemma listeners_addEventListener:
  "listeners (addEventListener ty l s) ty' =
     (if ty' = ty \<and> l \<notin> set (listeners s ty) then listeners s ty @ [l] else listeners s ty')"
  by (simp add: addEventListener_def)

lemma listeners_removeEventListener:
  "listeners (removeEventListener ty l s) ty' =
     (if ty' = ty then remove1 l (listeners s ty) else listeners s ty')"
  by (simp add: removeEventListener_def)

lemma update_idle:
  assumes "gameStatus s \<noteq> InGame"
  shows "fst (update e dt s) = []"
    and "gameStatus (snd (update e dt s)) = gameStatus s"
    and "lastTime (snd (update e dt s)) = lastTime s"
    and "player (snd (update e dt s)) = player s"
    and "allEnemies (snd (update e dt s)) = allEnemies s"
    and "clock_reads (snd (update e dt s)) = clock_reads s"
    and "frame_requests (snd (update e dt s)) = frame_requests s"
    and "ctx (snd (update e dt s)) = ctx s"
    and "closures (snd (update e dt s)) = closures s + 1"
  using assms by (cases "gameStatus s"; simp add: update_NewGame update_GameOver)+

lemma main_idle:
  assumes "gameStatus s \<noteq> InGame"
  shows "fst (main e s) =
           [Call_update (real_of_int (date_now e (clock_reads s) - lastTime s) / 1000) [],
            Call_render, Set_lastTime (date_now e (clock_reads s)), Call_requestAnimationFrame]"
    and "gameStatus (snd (main e s)) = gameStatus s"
    and "lastTime (snd (main e s)) = date_now e (clock_reads s)"
    and "player (snd (main e s)) = player s"
    and "allEnemies (snd (main e s)) = allEnemies s"
    and "clock_reads (snd (main e s)) = clock_reads s + 1"
    and "frame_requests (snd (main e s)) = frame_requests s + 1"
  using assms by (simp_all add: main_unfold update_idle)

lemma init_idle:
  assumes "gameStatus s \<noteq> InGame"
  shows "fst (init e s) =
           [Set_lastTime (date_now e (clock_reads s)),
            Call_main
              [Call_update
                 (real_of_int (date_now e (clock_reads s + 1) - date_now e (clock_reads s)) / 1000) [],
               Call_render, Set_lastTime (date_now e (clock_reads s + 1)),
               Call_requestAnimationFrame]]"
    and "gameStatus (snd (init e s)) = gameStatus s"
    and "lastTime (snd (init e s)) = date_now e (clock_reads s + 1)"
    and "player (snd (init e s)) = player s"
    and "allEnemies (snd (init e s)) = allEnemies s"
    and "clock_reads (snd (init e s)) = clock_reads s + 2"
    and "frame_requests (snd (init e s)) = frame_requests s + 1"
  using assms by (simp_all add: init_unfold main_idle)

lemma checkCollisions_win_fields:
  assumes "pos_y (fold hit (allEnemies s) (player s)) < 0"
  shows "gameStatus (snd (checkCollisions e s)) = GameOver"
    and "player (snd (checkCollisions e s)) =
           (fold hit (allEnemies s) (player s))\<lparr>pos_x := 200, pos_y := 380\<rparr>"
    and "allEnemies (snd (checkCollisions e s)) = allEnemies s"
    and "lastTime (snd (checkCollisions e s)) = date_now e (clock_reads s + 1)"
    and "clock_reads (snd (checkCollisions e s)) = clock_reads s + 2"
    and "frame_requests (snd (checkCollisions e s)) = frame_requests s + 1"
  using assms by (simp_all add: checkCollisions_win init_idle)

lemma checkCollisions_allEnemies:
  "allEnemies (snd (checkCollisions e s)) = allEnemies s"
  by (cases "pos_y (fold hit (allEnemies s) (player s)) < 0")
    (simp_all add: checkCollisions_win_fields checkCollisions_no_win)

subsection \<open>Key events\<close>

lemma invoke_listeners [simp]: "listeners (invoke e key l s) = listeners s"
  by (cases l) (simp_all add: startInput_def gameoverInput_def gameStartInput_def)

lemma invoke_phase:
  "gameStatus (invoke e key l s) = gameStatus s \<or>
   key = 13 \<and> gameStatus (invoke e key l s) = InGame"
  by (cases l) (simp_all add: startInput_def gameoverInput_def gameStartInput_def)

lemma fold_invoke_phase:
  "gameStatus (fold (invoke e key) ls s) = gameStatus s \<or>
   key = 13 \<and> gameStatus (fold (invoke e key) ls s) = InGame"
proof (induction ls arbitrary: s)
  case Nil
  then show ?case by simp
next
  case (Cons l ls)
  from Cons.IH [of "invoke e key l s"] invoke_phase [of e key l s] show ?case
    by auto
qed

lemma fold_invoke_Input:
  "set ls \<subseteq> {Input} \<Longrightarrow> gameStatus (fold (invoke e key) ls s) = gameStatus s"
  by (induction ls arbitrary: s) auto

lemma fold_invoke_InGame:
  "gameStatus s = InGame \<Longrightarrow> gameStatus (fold (invoke e key) ls s) = InGame"
  using fold_invoke_phase [of e key ls s] by auto

lemma invoke_Enter: "l \<noteq> Input \<Longrightarrow> gameStatus (invoke e 13 l s) = InGame"
  by (cases l) (simp_all add: startInput_def gameoverInput_def gameStartInput_def)

lemma fold_invoke_Enter:
  "\<exists>l\<in>set ls. l \<noteq> Input \<Longrightarrow> gameStatus (fold (invoke e 13) ls s) = InGame"
proof (induction ls arbitrary: s)
  case Nil
  then show ?case by simp
next
  case (Cons l ls)
  show ?case
  proof (cases "l = Input")
    case True
    with Cons show ?thesis by auto
  next
    case False
    then have "gameStatus (invoke e 13 l s) = InGame"
      by (rule invoke_Enter)
    then show ?thesis
      by (simp add: fold_invoke_InGame)
  qed
qed

lemma fold_invoke_fields:
  "listeners (fold (invoke e key) ls s) = listeners s"
  "closures (fold (invoke e key) ls s) = closures s"
  "frame_requests (fold (invoke e key) ls s) = frame_requests s"
proof (induction ls arbitrary: s)
  case Nil
  {
    case 1 show ?case by simp
  next
    case 2 show ?case by simp
  next
    case 3 show ?case by simp
  }
next
  case (Cons l ls)
  {
    case 1 show ?case by (simp add: Cons.IH(1))
  next
    case 2 show ?case by (cases l) (simp_all add: Cons.IH(2) startInput_def gameoverInput_def gameStartInput_def)
  next
    case 3 show ?case by (cases l) (simp_all add: Cons.IH(3) startInput_def gameoverInput_def gameStartInput_def)
  }
qed

lemma dispatchEvent_fields [simp]:
  "listeners (dispatchEvent e ty key s) = listeners s"
  "closures (dispatchEvent e ty key s) = closures s"
  "frame_requests (dispatchEvent e ty key s) = frame_requests s"
  by (simp_all add: dispatchEvent_def fold_invoke_fields)

lemma statuses_last:
  "last (statuses e key ls s) = gameStatus (fold (invoke e key) ls s)"
  by (induction ls arbitrary: s) (simp_all, case_tac ls, simp_all)

lemma statuses_length: "length (statuses e key ls s) = length ls + 1"
  by (induction ls arbitrary: s) simp_all

lemma transitions_statuses:
  "transitions a b (x # statuses e key ls s) =
     (if x = a \<and> gameStatus s = b then 1 else 0) + transitions a b (statuses e key ls s)"
  by (cases ls) simp_all

lemma invoke_InGame: "gameStatus s = InGame \<Longrightarrow> gameStatus (invoke e key l s) = InGame"
  using fold_invoke_InGame [of s e key "[l]"] by simp

lemma no_transition_InGame:
  "gameStatus s = InGame \<Longrightarrow> transitions NewGame InGame (statuses e key ls s) = 0"
proof (induction ls arbitrary: s)
  case Nil
  then show ?case by simp
next
  case (Cons l ls)
  then have "gameStatus (invoke e key l s) = InGame"
    by (simp add: invoke_InGame)
  with Cons show ?case
    by (simp add: transitions_statuses)
qed

lemma one_transition_Enter:
  assumes "gameStatus s = NewGame" and "\<exists>l\<in>set ls. l \<noteq> Input"
  shows "transitions NewGame InGame (statuses e 13 ls s) = 1"
  using assms
proof (induction ls arbitrary: s)
  case Nil
  then show ?case by simp
next
  case (Cons l ls)
  show ?case
  proof (cases "l = Input")
    case True
    with Cons.prems have "gameStatus (invoke e 13 l s) = NewGame" and "\<exists>l\<in>set ls. l \<noteq> Input"
      by simp_all
    then have "transitions NewGame InGame (statuses e 13 ls (invoke e 13 l s)) = 1"
      and "gameStatus (invoke e 13 l s) = NewGame"
      by (simp_all add: Cons.IH)
    then show ?thesis
      by (simp add: transitions_statuses)
  next
    case False
    then have now: "gameStatus (invoke e 13 l s) = InGame"
      by (rule invoke_Enter)
    then have "transitions NewGame InGame (statuses e 13 ls (invoke e 13 l s)) = 0"
      by (rule no_transition_InGame)
    with now Cons.prems(1) show ?thesis
      by (simp add: transitions_statuses)
  qed
qed

subsection \<open>A new listener on every call\<close>

lemma created_before_Suc: "created_before n l \<Longrightarrow> created_before (Suc n) l"
  by (cases l) simp_all

lemma list_all_created_before_Suc:
  "list_all (created_before n) ls \<Longrightarrow> list_all (created_before (Suc n)) ls"
  by (induction ls) (simp_all add: created_before_Suc)

lemma not_yet_created:
  assumes "list_all (created_before n) ls"
  shows "StartInput n \<notin> set ls" and "GameoverInput n \<notin> set ls" and "GameStartInput n \<notin> set ls"
  using assms by (induction ls) auto

lemma update_NewGame_keydown:
  assumes "gameStatus s = NewGame" and "closures_counted s"
  shows "listeners (snd (update e dt s)) ''keydown'' = listeners s ''keydown'' @ [StartInput (closures s)]"
    and "closures_counted (snd (update e dt s))"
proof -
  from assms(2) have old: "list_all (created_before (closures s)) (listeners s ''keydown'')"
    by (simp add: closures_counted_def)
  then have new: "StartInput (closures s) \<notin> set (listeners s ''keydown'')"
    by (rule not_yet_created)
  with assms(1) show "listeners (snd (update e dt s)) ''keydown'' = listeners s ''keydown'' @ [StartInput (closures s)]"
    by (simp add: update_NewGame listeners_addEventListener listeners_removeEventListener)
  with assms(1) old show "closures_counted (snd (update e dt s))"
    by (simp add: closures_counted_def update_idle list_all_created_before_Suc)
qed

lemma update_GameOver_keydown:
  assumes "gameStatus s = GameOver" and "closures_counted s"
  shows "listeners (snd (update e dt s)) ''keydown'' = listeners s ''keydown'' @ [GameoverInput (closures s)]"
    and "closures_counted (snd (update e dt s))"
proof -
  from assms(2) have old: "list_all (created_before (closures s)) (listeners s ''keydown'')"
    by (simp add: closures_counted_def)
  then have new: "GameoverInput (closures s) \<notin> set (listeners s ''keydown'')"
    by (rule not_yet_created)
  with assms(1) show "listeners (snd (update e dt s)) ''keydown'' = listeners s ''keydown'' @ [GameoverInput (closures s)]"
    by (simp add: update_GameOver listeners_addEventListener listeners_removeEventListener)
  with assms(1) old show "closures_counted (snd (update e dt s))"
    by (simp add: closures_counted_def update_idle list_all_created_before_Suc)
qed

lemma upt_shift: "[n ..< Suc (n + k)] = n # [Suc n ..< Suc (n + k)]"
  by (simp add: upt_conv_Cons del: upt_Suc)

lemma updates_NewGame:
  assumes "gameStatus s = NewGame" and "closures_counted s"
  shows "gameStatus (updates e dts s) = NewGame \<and>
         closures_counted (updates e dts s) \<and>
         closures (updates e dts s) = closures s + length dts \<and>
         player (updates e dts s) = player s \<and>
         allEnemies (updates e dts s) = allEnemies s \<and>
         lastTime (updates e dts s) = lastTime s \<and>
         listeners (updates e dts s) ''keydown'' =
           listeners s ''keydown'' @ map StartInput [closures s ..< closures s + length dts]"
  using assms
proof (induction dts arbitrary: s)
  case Nil
  then show ?case by (simp add: updates_def)
next
  case (Cons dt dts)
  let ?s = "snd (update e dt s)"
  from Cons.prems have idle: "gameStatus s \<noteq> InGame"
    by simp
  have unfold: "updates e (dt # dts) s = updates e dts ?s"
    by (simp add: updates_def)
  have first: "listeners ?s ''keydown'' = listeners s ''keydown'' @ [StartInput (closures s)]"
    and "closures_counted ?s"
    using Cons.prems by (rule update_NewGame_keydown)+
  moreover have "gameStatus ?s = NewGame"
    using Cons.prems by (simp add: update_idle)
  ultimately have ih:
    "gameStatus (updates e dts ?s) = NewGame \<and>
     closures_counted (updates e dts ?s) \<and>
     closures (updates e dts ?s) = closures ?s + length dts \<and>
     player (updates e dts ?s) = player ?s \<and>
     allEnemies (updates e dts ?s) = allEnemies ?s \<and>
     lastTime (updates e dts ?s) = lastTime ?s \<and>
     listeners (updates e dts ?s) ''keydown'' =
       listeners ?s ''keydown'' @ map StartInput [closures ?s ..< closures ?s + length dts]"
    using Cons.IH [of ?s] by blast
  have count: "closures ?s = Suc (closures s)"
    by (simp add: update_idle [OF idle])
  have "listeners ?s ''keydown'' @ map StartInput [closures ?s ..< closures ?s + length dts] =
      listeners s ''keydown'' @ map StartInput [closures s ..< closures s + length (dt # dts)]"
    by (simp add: first count upt_shift del: upt_Suc)
  with ih show ?case
    by (simp add: unfold update_idle [OF idle] del: upt_Suc)
qed

subsection \<open>What stays true of the listener lists\<close>

lemma keydown_kept:
  "set (listeners s ''keydown'') \<subseteq> set (listeners (snd (main e s)) ''keydown'')"
  "set (listeners s ''keydown'') \<subseteq> set (listeners (snd (init e s)) ''keydown'')"
  "set (listeners s ''keydown'') \<subseteq> set (listeners (snd (update e dt s)) ''keydown'')"
  "set (listeners s ''keydown'') \<subseteq> set (listeners (snd (checkCollisions e s)) ''keydown'')"
proof (induction e s and e s and e dt s and e s rule: main_init_update_checkCollisions.induct)
  case (1 e s)
  then show ?case
    by (simp add: main_unfold)
next
  case (2 e s)
  then show ?case
    by (simp add: init_unfold)
next
  case (3 e dt s)
  show ?case
  proof (cases "gameStatus s")
    case NewGame
    then show ?thesis
      by (auto simp add: update_NewGame listeners_addEventListener listeners_removeEventListener)
  next
    case InGame
    then show ?thesis
      using 3 by (simp add: update_InGame listeners_addEventListener)
  next
    case GameOver
    then show ?thesis
      by (auto simp add: update_GameOver listeners_addEventListener listeners_removeEventListener)
  qed
next
  case (4 e s)
  then show ?case
    by (cases "pos_y (fold hit (allEnemies s) (player s)) < 0")
      (simp_all add: checkCollisions_win checkCollisions_no_win)
qed

lemma other_listeners_kept:
  assumes "(ty, l) \<noteq> (''keyup'', Input)"
  shows "l \<in> set (listeners s ty) \<Longrightarrow> l \<in> set (listeners (snd (main e s)) ty)"
    and "l \<in> set (listeners s ty) \<Longrightarrow> l \<in> set (listeners (snd (init e s)) ty)"
    and "l \<in> set (listeners s ty) \<Longrightarrow> l \<in> set (listeners (snd (update e dt s)) ty)"
    and "l \<in> set (listeners s ty) \<Longrightarrow> l \<in> set (listeners (snd (checkCollisions e s)) ty)"
proof (induction e s and e s and e dt s and e s rule: main_init_update_checkCollisions.induct)
  case (1 e s)
  then show ?case
    by (simp add: main_unfold)
next
  case (2 e s)
  then show ?case
    by (simp add: init_unfold)
next
  case (3 e dt s)
  show ?case
  proof (cases "gameStatus s")
    case NewGame
    with 3(2) assms show ?thesis
      by (auto simp add: update_NewGame listeners_addEventListener listeners_removeEventListener)
  next
    case InGame
    have "l \<in> set (listeners (updateEntities e dt (addEventListener ''keyup'' Input s)) ty)"
      using 3(2) by (auto simp add: listeners_addEventListener)
    with 3(1) InGame show ?thesis
      by (simp add: update_InGame)
  next
    case GameOver
    with 3(2) assms show ?thesis
      by (auto simp add: update_GameOver listeners_addEventListener listeners_removeEventListener)
  qed
next
  case (4 e s)
  then show ?case
    by (cases "pos_y (fold hit (allEnemies s) (player s)) < 0")
      (simp_all add: checkCollisions_win checkCollisions_no_win)
qed

lemma keyup_only_Input:
  "set (listeners s ''keyup'') \<subseteq> {Input} \<Longrightarrow> set (listeners (snd (main e s)) ''keyup'') \<subseteq> {Input}"
  "set (listeners s ''keyup'') \<subseteq> {Input} \<Longrightarrow> set (listeners (snd (init e s)) ''keyup'') \<subseteq> {Input}"
  "set (listeners s ''keyup'') \<subseteq> {Input} \<Longrightarrow> set (listeners (snd (update e dt s)) ''keyup'') \<subseteq> {Input}"
  "set (listeners s ''keyup'') \<subseteq> {Input} \<Longrightarrow>
     set (listeners (snd (checkCollisions e s)) ''keyup'') \<subseteq> {Input}"
proof (induction e s and e s and e dt s and e s rule: main_init_update_checkCollisions.induct)
  case (1 e s)
  then show ?case
    by (simp add: main_unfold)
next
  case (2 e s)
  then show ?case
    by (simp add: init_unfold)
next
  case (3 e dt s)
  show ?case
  proof (cases "gameStatus s")
    case NewGame
    with 3(2) show ?thesis
      using set_remove1_subset [of Input "listeners s ''keyup''"]
      by (auto simp add: update_NewGame listeners_addEventListener listeners_removeEventListener)
  next
    case InGame
    have "set (listeners (updateEntities e dt (addEventListener ''keyup'' Input s)) ''keyup'') \<subseteq> {Input}"
      using 3(2) by (auto simp add: listeners_addEventListener)
    with 3(1) InGame show ?thesis
      by (simp add: update_InGame)
  next
    case GameOver
    with 3(2) show ?thesis
      using set_remove1_subset [of Input "listeners s ''keyup''"]
      by (auto simp add: update_GameOver listeners_addEventListener listeners_removeEventListener)
  qed
next
  case (4 e s)
  then show ?case
    by (cases "pos_y (fold hit (allEnemies s) (player s)) < 0")
      (simp_all add: checkCollisions_win checkCollisions_no_win)
qed

lemma closures_counted_kept:
  "closures_counted s \<Longrightarrow> closures_counted (snd (main e s))"
  "closures_counted s \<Longrightarrow> closures_counted (snd (init e s))"
  "closures_counted s \<Longrightarrow> closures_counted (snd (update e dt s))"
  "closures_counted s \<Longrightarrow> closures_counted (snd (checkCollisions e s))"
proof (induction e s and e s and e dt s and e s rule: main_init_update_checkCollisions.induct)
  case (1 e s)
  then show ?case
    by (simp add: main_unfold closures_counted_def)
next
  case (2 e s)
  then show ?case
    by (simp add: init_unfold closures_counted_def)
next
  case (3 e dt s)
  show ?case
  proof (cases "gameStatus s")
    case NewGame
    with 3(2) show ?thesis
      by (simp add: update_NewGame_keydown)
  next
    case InGame
    have "closures_counted (updateEntities e dt (addEventListener ''keyup'' Input s))"
      using 3(2) by (simp add: closures_counted_def listeners_addEventListener)
    with 3(1) InGame show ?thesis
      by (simp add: update_InGame)
  next
    case GameOver
    with 3(2) show ?thesis
      by (simp add: update_GameOver_keydown)
  qed
next
  case (4 e s)
  then show ?case
    by (cases "pos_y (fold hit (allEnemies s) (player s)) < 0")
      (simp_all add: checkCollisions_win checkCollisions_no_win closures_counted_def)
qed

lemma step_invariants:
  "closures_counted s \<Longrightarrow> closures_counted (step e oc s)"
  "set (listeners s ''keyup'') \<subseteq> {Input} \<Longrightarrow> set (listeners (step e oc s) ''keyup'') \<subseteq> {Input}"
  "set (listeners s ''keydown'') \<subseteq> set (listeners (step e oc s) ''keydown'')"
proof -
  have counted: "closures_counted (s\<lparr>frame_requests := n\<rparr>) = closures_counted s" for n
    by (simp add: closures_counted_def)
  show "closures_counted s \<Longrightarrow> closures_counted (step e oc s)"
    by (cases oc) (simp_all add: closures_counted_kept counted, simp_all add: closures_counted_def)
  show "set (listeners s ''keyup'') \<subseteq> {Input} \<Longrightarrow> set (listeners (step e oc s) ''keyup'') \<subseteq> {Input}"
    by (cases oc) (simp_all add: keyup_only_Input)
  show "set (listeners s ''keydown'') \<subseteq> set (listeners (step e oc s) ''keydown'')"
    using keydown_kept(1) [of "s\<lparr>frame_requests := frame_requests s - 1\<rparr>" e] keydown_kept(2) [of s e]
    by (cases oc) simp_all
qed

lemma run_Cons: "run e (oc # os) s = run e os (step e oc s)"
  by (simp add: run_def)

lemma run_closures_counted: "closures_counted s \<Longrightarrow> closures_counted (run e os s)"
proof (induction os arbitrary: s)
  case Nil
  then show ?case by (simp add: run_def)
next
  case (Cons oc os)
  from Cons.prems have "closures_counted (step e oc s)"
    by (rule step_invariants(1))
  then show ?case
    by (simp add: run_Cons Cons.IH)
qed

lemma run_keyup_only_Input:
  "set (listeners s ''keyup'') \<subseteq> {Input} \<Longrightarrow> set (listeners (run e os s) ''keyup'') \<subseteq> {Input}"
proof (induction os arbitrary: s)
  case Nil
  then show ?case by (simp add: run_def)
next
  case (Cons oc os)
  from Cons.prems have "set (listeners (step e oc s) ''keyup'') \<subseteq> {Input}"
    by (rule step_invariants(2))
  then show ?case
    unfolding run_Cons by (rule Cons.IH)
qed

lemma run_keydown_kept:
  "set (listeners s ''keydown'') \<subseteq> set (listeners (run e os s) ''keydown'')"
proof (induction os arbitrary: s)
  case Nil
  show ?case by (simp add: run_def)
next
  case (Cons oc os)
  have "set (listeners s ''keydown'') \<subseteq> set (listeners (step e oc s) ''keydown'')"
    by (rule step_invariants(3))
  also have "\<dots> \<subseteq> set (listeners (run e os (step e oc s)) ''keydown'')"
    by (rule Cons.IH)
  finally show ?case
    by (simp add: run_Cons)
qed

lemma boot_invariants:
  "closures_counted (boot p es)" "set (listeners (boot p es) ''keyup'') \<subseteq> {Input}"
  by (simp_all add: boot_def closures_counted_def)

section \<open>The claims\<close>

text \<open>
  Claim C1, as amended. checkCollisions tests the enemies first and reads the player's y
  afterwards. When the player's y is below 0 and no enemy collides with the player, the
  player is put at (200, 380) and the status becomes 'game over'. When the player's y is
  below 0 and an enemy does collide, the collision has already put the player at
  (200, 380), the test for y < 0 fails, and the status stays what it was.
\<close>

theorem win_unless_hit:
  assumes "pos_y (player s) < 0"
  shows "((\<forall>enemy\<in>set (allEnemies s). \<not> collides (player s) enemy) \<longrightarrow>
            pos_x (player (snd (checkCollisions e s))) = 200 \<and>
            pos_y (player (snd (checkCollisions e s))) = 380 \<and>
            gameStatus (snd (checkCollisions e s)) = GameOver) \<and>
         ((\<exists>enemy\<in>set (allEnemies s). collides (player s) enemy) \<longrightarrow>
            pos_x (player (snd (checkCollisions e s))) = 200 \<and>
            pos_y (player (snd (checkCollisions e s))) = 380 \<and>
            gameStatus (snd (checkCollisions e s)) = gameStatus s)"
proof (intro conjI impI)
  assume miss: "\<forall>enemy\<in>set (allEnemies s). \<not> collides (player s) enemy"
  then have "fold hit (allEnemies s) (player s) = player s"
    by (rule fold_hit_miss)
  with assms have win: "pos_y (fold hit (allEnemies s) (player s)) < 0"
    by simp
  show "pos_x (player (snd (checkCollisions e s))) = 200"
    and "pos_y (player (snd (checkCollisions e s))) = 380"
    and "gameStatus (snd (checkCollisions e s)) = GameOver"
    by (simp_all add: checkCollisions_win_fields [OF win])
next
  assume "\<exists>enemy\<in>set (allEnemies s). collides (player s) enemy"
  then have r: "checkCollisions e s = ([], s\<lparr>player := (player s)\<lparr>pos_x := 200, pos_y := 380\<rparr>\<rparr>)"
    by (rule checkCollisions_collision)
  show "pos_x (player (snd (checkCollisions e s))) = 200"
    and "pos_y (player (snd (checkCollisions e s))) = 380"
    and "gameStatus (snd (checkCollisions e s)) = gameStatus s"
    by (simp_all add: r)
qed

theorem win_unless_hit_witness:
  "pos_y (player (playing \<lparr>pos_x = 200, pos_y = -35\<rparr> [\<lparr>pos_x = 0, pos_y = 60\<rparr>])) < 0 \<and>
   player (snd (checkCollisions demo_env (playing \<lparr>pos_x = 200, pos_y = -35\<rparr> [\<lparr>pos_x = 0, pos_y = 60\<rparr>])))
     = \<lparr>pos_x = 200, pos_y = 380\<rparr> \<and>
   gameStatus (snd (checkCollisions demo_env (playing \<lparr>pos_x = 200, pos_y = -35\<rparr> [\<lparr>pos_x = 0, pos_y = 60\<rparr>])))
     = GameOver \<and>
   pos_y (player (playing \<lparr>pos_x = 200, pos_y = -10\<rparr> [\<lparr>pos_x = 200, pos_y = 0\<rparr>])) < 0 \<and>
   player (snd (checkCollisions demo_env (playing \<lparr>pos_x = 200, pos_y = -10\<rparr> [\<lparr>pos_x = 200, pos_y = 0\<rparr>])))
     = \<lparr>pos_x = 200, pos_y = 380\<rparr> \<and>
   gameStatus (snd (checkCollisions demo_env (playing \<lparr>pos_x = 200, pos_y = -10\<rparr> [\<lparr>pos_x = 200, pos_y = 0\<rparr>])))
     = InGame"
  using win_unless_hit [of "playing \<lparr>pos_x = 200, pos_y = -35\<rparr> [\<lparr>pos_x = 0, pos_y = 60\<rparr>]" demo_env]
    win_unless_hit [of "playing \<lparr>pos_x = 200, pos_y = -10\<rparr> [\<lparr>pos_x = 200, pos_y = 0\<rparr>]" demo_env]
  by (simp add: playing_def collides_def)

text \<open>
  The claim as stated fails: with the player at (200, -10) and an enemy at (200, 0) the
  player's y is below 0, the two collide, and after checkCollisions (and after a whole
  update in the 'in game' status) the status is still 'in game'.
\<close>

theorem win_regardless_counterexample:
  "pos_y (player (playing \<lparr>pos_x = 200, pos_y = -10\<rparr> [\<lparr>pos_x = 200, pos_y = 0\<rparr>])) < 0 \<and>
   gameStatus (playing \<lparr>pos_x = 200, pos_y = -10\<rparr> [\<lparr>pos_x = 200, pos_y = 0\<rparr>]) = InGame \<and>
   gameStatus (snd (checkCollisions demo_env
      (playing \<lparr>pos_x = 200, pos_y = -10\<rparr> [\<lparr>pos_x = 200, pos_y = 0\<rparr>]))) = InGame \<and>
   gameStatus (snd (update demo_env 0
      (playing \<lparr>pos_x = 200, pos_y = -10\<rparr> [\<lparr>pos_x = 200, pos_y = 0\<rparr>]))) \<noteq> GameOver"
  by (simp add: playing_def update.simps checkCollisions.simps updateEntities_def demo_env_def
      hit_def collides_def addEventListener_def)

text \<open>
  Claim C2, as amended. Calling update any number of times with status 'new game' and no
  key event in between leaves the status 'new game' (and the player, the enemies and
  lastTime as they were), and every call registers one more key-down listener, a new
  startInput: after n calls n of them have been added, in order of creation. One press of
  Enter runs every registered listener in order, each startInput assigning 'in game';
  after at least one call the status is then 'in game', and over the listeners of that
  one press it goes from 'new game' to 'in game' exactly once.
\<close>

theorem updates_NewGame_register_each_time:
  assumes "gameStatus s = NewGame" and "closures_counted s"
  shows "gameStatus (updates e dts s) = NewGame \<and>
         player (updates e dts s) = player s \<and>
         allEnemies (updates e dts s) = allEnemies s \<and>
         lastTime (updates e dts s) = lastTime s \<and>
         listeners (updates e dts s) ''keydown'' =
           listeners s ''keydown'' @ map StartInput [closures s ..< closures s + length dts] \<and>
         length (listeners (updates e dts s) ''keydown'') =
           length (listeners s ''keydown'') + length dts \<and>
         (dts \<noteq> [] \<longrightarrow> gameStatus (step e (KeyDown 13) (updates e dts s)) = InGame) \<and>
         step e (KeyDown 13) (updates e dts s) =
           fold (invoke e 13) (listeners (updates e dts s) ''keydown'') (updates e dts s) \<and>
         (\<forall>k t. invoke e 13 (StartInput k) t = t\<lparr>gameStatus := InGame\<rparr>) \<and>
         length (statuses e 13 (listeners (updates e dts s) ''keydown'') (updates e dts s)) =
           length (listeners s ''keydown'') + length dts + 1 \<and>
         last (statuses e 13 (listeners (updates e dts s) ''keydown'') (updates e dts s)) =
           gameStatus (step e (KeyDown 13) (updates e dts s)) \<and>
         (dts \<noteq> [] \<longrightarrow>
            transitions NewGame InGame
              (statuses e 13 (listeners (updates e dts s) ''keydown'') (updates e dts s)) = 1)"
proof -
  let ?s = "updates e dts s"
  note facts = updates_NewGame [OF assms, of e dts]
  have some: "\<exists>l\<in>set (listeners ?s ''keydown''). l \<noteq> Input" if "dts \<noteq> []"
  proof -
    from that have "StartInput (closures s) \<in> set (map StartInput [closures s ..< closures s + length dts])"
      by (cases dts) (simp_all add: upt_shift del: upt_Suc)
    with facts show ?thesis
      by auto
  qed
  then have enter: "gameStatus (step e (KeyDown 13) ?s) = InGame" if "dts \<noteq> []"
    using that by (simp add: dispatchEvent_def fold_invoke_Enter)
  have all: "step e (KeyDown 13) ?s = fold (invoke e 13) (listeners ?s ''keydown'') ?s"
    by (simp add: dispatchEvent_def)
  have each: "\<forall>k t. invoke e 13 (StartInput k) t = t\<lparr>gameStatus := InGame\<rparr>"
    by (simp add: startInput_def)
  have len: "length (statuses e 13 (listeners ?s ''keydown'') ?s) =
      length (listeners s ''keydown'') + length dts + 1"
    using facts by (simp add: statuses_length)
  have final: "last (statuses e 13 (listeners ?s ''keydown'') ?s) = gameStatus (step e (KeyDown 13) ?s)"
    by (simp add: statuses_last dispatchEvent_def)
  have once: "transitions NewGame InGame (statuses e 13 (listeners ?s ''keydown'') ?s) = 1"
    if "dts \<noteq> []"
    using facts some [OF that] by (simp add: one_transition_Enter)
  from facts enter all each len final once show ?thesis
    by simp
qed

theorem updates_NewGame_register_each_time_witness:
  "gameStatus (updates demo_env [0, 0, 0] (boot \<lparr>pos_x = 200, pos_y = 380\<rparr> [])) = NewGame \<and>
   listeners (updates demo_env [0, 0, 0] (boot \<lparr>pos_x = 200, pos_y = 380\<rparr> [])) ''keydown'' =
     [StartInput 0, StartInput 1, StartInput 2] \<and>
   gameStatus (step demo_env (KeyDown 13)
     (updates demo_env [0, 0, 0] (boot \<lparr>pos_x = 200, pos_y = 380\<rparr> []))) = InGame \<and>
   statuses demo_env 13 [StartInput 0, StartInput 1, StartInput 2]
     (updates demo_env [0, 0, 0] (boot \<lparr>pos_x = 200, pos_y = 380\<rparr> [])) =
     [NewGame, InGame, InGame, InGame] \<and>
   transitions NewGame InGame
     (statuses demo_env 13
        (listeners (updates demo_env [0, 0, 0] (boot \<lparr>pos_x = 200, pos_y = 380\<rparr> [])) ''keydown'')
        (updates demo_env [0, 0, 0] (boot \<lparr>pos_x = 200, pos_y = 380\<rparr> []))) = 1"
proof -
  let ?b = "boot \<lparr>pos_x = 200, pos_y = 380\<rparr> []"
  let ?s = "updates demo_env [0, 0, 0] ?b"
  have start: "gameStatus ?b = NewGame" "closures_counted ?b" "listeners ?b ''keydown'' = []"
    "closures ?b = 0"
    by (simp_all add: boot_def closures_counted_def)
  have three: "[0::real, 0, 0] \<noteq> []"
    by simp
  note t = updates_NewGame_register_each_time [OF start(1,2), of demo_env "[0, 0, 0]"]
  from t have a: "gameStatus ?s = NewGame"
    by blast
  from t have "listeners ?s ''keydown'' =
      listeners ?b ''keydown'' @ map StartInput [closures ?b ..< closures ?b + length [0::real, 0, 0]]"
    by blast
  then have b: "listeners ?s ''keydown'' = [StartInput 0, StartInput 1, StartInput 2]"
    by (simp add: start(3,4) upt_rec)
  from t three have c: "gameStatus (step demo_env (KeyDown 13) ?s) = InGame"
    by blast
  from a have d: "statuses demo_env 13 [StartInput 0, StartInput 1, StartInput 2] ?s =
      [NewGame, InGame, InGame, InGame]"
    by (simp add: startInput_def)
  from t three have e: "transitions NewGame InGame (statuses demo_env 13 (listeners ?s ''keydown'') ?s) = 1"
    by blast
  from a b c d e show ?thesis
    by blast
qed

text \<open>
  The claim as stated fails: from the state the script starts in, the key-down listeners
  after two calls of update are two different startInput functions, after one call one.
\<close>

theorem updates_same_listeners_counterexample:
  "gameStatus (boot \<lparr>pos_x = 200, pos_y = 380\<rparr> []) = NewGame \<and>
   listeners (updates demo_env [0] (boot \<lparr>pos_x = 200, pos_y = 380\<rparr> [])) ''keydown'' =
     [StartInput 0] \<and>
   listeners (updates demo_env [0, 0] (boot \<lparr>pos_x = 200, pos_y = 380\<rparr> [])) ''keydown'' =
     [StartInput 0, StartInput 1] \<and>
   set (listeners (updates demo_env [0, 0] (boot \<lparr>pos_x = 200, pos_y = 380\<rparr> [])) ''keydown'') \<noteq>
   set (listeners (updates demo_env [0] (boot \<lparr>pos_x = 200, pos_y = 380\<rparr> [])) ''keydown'')"
  by (simp add: updates_def update.simps boot_def addEventListener_def removeEventListener_def)

text \<open>
  Claim C3. In an update with status 'in game', when after the entities have been updated
  some enemy collides with the player, the player ends at exactly (200, 380) and the status
  is still 'in game'. Such an update calls updateEntities and then checkCollisions; an
  update with another status calls neither and leaves the player, the enemies and the
  status alone.
\<close>

theorem collision_resets_player:
  fixes e dt s
  defines "s1 \<equiv> updateEntities e dt (addEventListener ''keyup'' Input s)"
    and "s' \<equiv> snd (update e dt s)"
  shows "(gameStatus s = InGame \<and> (\<exists>enemy\<in>set (allEnemies s1). collides (player s1) enemy) \<longrightarrow>
            pos_x (player s') = 200 \<and> pos_y (player s') = 380 \<and> gameStatus s' = InGame) \<and>
         (gameStatus s = InGame \<longrightarrow>
            (\<exists>did. fst (update e dt s) = [Call_updateEntities dt, Call_checkCollisions did])) \<and>
         (gameStatus s \<noteq> InGame \<longrightarrow>
            fst (update e dt s) = [] \<and> player s' = player s \<and> allEnemies s' = allEnemies s \<and>
            gameStatus s' = gameStatus s)"
proof (intro conjI impI)
  assume a: "gameStatus s = InGame \<and> (\<exists>enemy\<in>set (allEnemies s1). collides (player s1) enemy)"
  then have "checkCollisions e s1 = ([], s1\<lparr>player := (player s1)\<lparr>pos_x := 200, pos_y := 380\<rparr>\<rparr>)"
    by (simp add: checkCollisions_collision)
  with a have "s' = s1\<lparr>player := (player s1)\<lparr>pos_x := 200, pos_y := 380\<rparr>\<rparr>"
    by (simp add: s'_def s1_def update_InGame)
  with a show "pos_x (player s') = 200" and "pos_y (player s') = 380" and "gameStatus s' = InGame"
    by (simp_all add: s1_def)
next
  assume "gameStatus s = InGame"
  then show "\<exists>did. fst (update e dt s) = [Call_updateEntities dt, Call_checkCollisions did]"
    by (simp add: update_InGame)
next
  assume "gameStatus s \<noteq> InGame"
  then show "fst (update e dt s) = []" and "player s' = player s"
    and "allEnemies s' = allEnemies s" and "gameStatus s' = gameStatus s"
    by (simp_all add: s'_def update_idle)
qed

theorem collision_resets_player_witness:
  "player (snd (update demo_env 0 (playing \<lparr>pos_x = 100, pos_y = 214\<rparr> [\<lparr>pos_x = 90, pos_y = 230\<rparr>])))
     = \<lparr>pos_x = 200, pos_y = 380\<rparr> \<and>
   gameStatus (snd (update demo_env 0 (playing \<lparr>pos_x = 100, pos_y = 214\<rparr> [\<lparr>pos_x = 90, pos_y = 230\<rparr>])))
     = InGame \<and>
   (\<exists>did. fst (update demo_env 0 (playing \<lparr>pos_x = 100, pos_y = 214\<rparr> [\<lparr>pos_x = 90, pos_y = 230\<rparr>]))
      = [Call_updateEntities 0, Call_checkCollisions did]) \<and>
   fst (update demo_env 0 (boot \<lparr>pos_x = 100, pos_y = 214\<rparr> [\<lparr>pos_x = 90, pos_y = 230\<rparr>])) = [] \<and>
   player (snd (update demo_env 0 (boot \<lparr>pos_x = 100, pos_y = 214\<rparr> [\<lparr>pos_x = 90, pos_y = 230\<rparr>])))
     = \<lparr>pos_x = 100, pos_y = 214\<rparr>"
  using collision_resets_player [of "playing \<lparr>pos_x = 100, pos_y = 214\<rparr> [\<lparr>pos_x = 90, pos_y = 230\<rparr>]" demo_env 0]
    collision_resets_player [of "boot \<lparr>pos_x = 100, pos_y = 214\<rparr> [\<lparr>pos_x = 90, pos_y = 230\<rparr>]" demo_env 0]
  by (simp add: playing_def boot_def collides_def updateEntities_def demo_env_def addEventListener_def)

text \<open>
  Claim C4. The listeners of the engine change the status only on a key-down of Enter
  (key code 13), and only to 'in game': a key-down that changes the status is one of
  Enter and leaves the status 'in game'; a key-up never changes it (the engine registers
  only the movement listener for key-up). After an update with status 'new game' or
  'game over' a key-down of Enter gives 'in game', and a key-down of any other key leaves
  the status as it was.
\<close>

theorem only_Enter_changes_status:
  assumes "set (listeners s ''keyup'') \<subseteq> {Input}"
  shows "(gameStatus (step e (KeyDown key) s) \<noteq> gameStatus s \<longrightarrow>
            key = 13 \<and> gameStatus (step e (KeyDown key) s) = InGame) \<and>
         gameStatus (step e (KeyUp key) s) = gameStatus s \<and>
         (gameStatus s \<noteq> InGame \<longrightarrow>
            gameStatus (step e (KeyDown 13) (snd (update e dt s))) = InGame \<and>
            (key \<noteq> 13 \<longrightarrow> gameStatus (step e (KeyDown key) (snd (update e dt s))) = gameStatus s))"
proof (intro conjI impI)
  assume "gameStatus (step e (KeyDown key) s) \<noteq> gameStatus s"
  then show "key = 13" and "gameStatus (step e (KeyDown key) s) = InGame"
    using fold_invoke_phase [of e key "listeners s ''keydown''" s]
    by (auto simp add: dispatchEvent_def)
next
  from assms show "gameStatus (step e (KeyUp key) s) = gameStatus s"
    by (simp add: dispatchEvent_def fold_invoke_Input)
next
  assume idle: "gameStatus s \<noteq> InGame"
  have "\<exists>l\<in>set (listeners (snd (update e dt s)) ''keydown''). l \<noteq> Input"
  proof (cases "gameStatus s")
    case NewGame
    then have "StartInput (closures s) \<in> set (listeners (snd (update e dt s)) ''keydown'')"
      by (simp add: update_NewGame listeners_addEventListener listeners_removeEventListener)
    then show ?thesis by blast
  next
    case InGame
    with idle show ?thesis by simp
  next
    case GameOver
    then have "GameoverInput (closures s) \<in> set (listeners (snd (update e dt s)) ''keydown'')"
      by (simp add: update_GameOver listeners_addEventListener listeners_removeEventListener)
    then show ?thesis by blast
  qed
  then show "gameStatus (step e (KeyDown 13) (snd (update e dt s))) = InGame"
    by (simp add: dispatchEvent_def fold_invoke_Enter)
  show "gameStatus (step e (KeyDown key) (snd (update e dt s))) = gameStatus s" if "key \<noteq> 13"
    using that idle fold_invoke_phase [of e key "listeners (snd (update e dt s)) ''keydown''" "snd (update e dt s)"]
    by (simp add: dispatchEvent_def update_idle)
qed

theorem only_Enter_changes_status_witness:
  "gameStatus (step demo_env (KeyDown 13)
     ((playing \<lparr>pos_x = 200, pos_y = 380\<rparr> [])\<lparr>gameStatus := GameOver\<rparr>)) \<noteq> GameOver \<and>
   gameStatus (step demo_env (KeyDown 13)
     ((playing \<lparr>pos_x = 200, pos_y = 380\<rparr> [])\<lparr>gameStatus := GameOver\<rparr>)) = InGame \<and>
   gameStatus (step demo_env (KeyDown 13)
     (snd (update demo_env 0 (boot \<lparr>pos_x = 200, pos_y = 380\<rparr> [])))) = InGame \<and>
   gameStatus (step demo_env (KeyDown 32)
     (snd (update demo_env 0 (boot \<lparr>pos_x = 200, pos_y = 380\<rparr> [])))) = NewGame \<and>
   gameStatus (step demo_env (KeyUp 13) (boot \<lparr>pos_x = 200, pos_y = 380\<rparr> [])) = NewGame"
proof -
  let ?over = "(playing \<lparr>pos_x = 200, pos_y = 380\<rparr> [])\<lparr>gameStatus := GameOver\<rparr>"
  let ?boot = "boot \<lparr>pos_x = 200, pos_y = 380\<rparr> []"
  have keyup: "set (listeners ?over ''keyup'') \<subseteq> {Input}" "set (listeners ?boot ''keyup'') \<subseteq> {Input}"
    by (simp_all add: playing_def boot_def)
  have changed: "gameStatus (step demo_env (KeyDown 13) ?over) \<noteq> gameStatus ?over"
    by (simp add: playing_def dispatchEvent_def startInput_def)
  with only_Enter_changes_status [OF keyup(1), of demo_env 13 0]
  have "gameStatus (step demo_env (KeyDown 13) ?over) = InGame"
    by blast
  moreover from changed have "gameStatus (step demo_env (KeyDown 13) ?over) \<noteq> GameOver"
    by (simp add: playing_def)
  moreover have "gameStatus ?boot = NewGame"
    by (simp add: boot_def)
  ultimately show ?thesis
    using only_Enter_changes_status [OF keyup(2), of demo_env 32 0]
      only_Enter_changes_status [OF keyup(2), of demo_env 13 0]
    by simp
qed

text \<open>
  Claim C5. One invocation of main reads the clock, takes dt as the difference to
  lastTime divided by 1000, and then does four things itself, in this order: one call
  of update with that dt, one call of render, the assignment of the reading to lastTime,
  and one request for an animation frame. The state it leaves is the state after that
  update, rendered, with the new lastTime and one more request than the update left.
\<close>

theorem main_once_each:
  "fst (main e s) =
     [Call_update (real_of_int (date_now e (clock_reads s) - lastTime s) / 1000)
        (fst (update e (real_of_int (date_now e (clock_reads s) - lastTime s) / 1000)
               (s\<lparr>clock_reads := clock_reads s + 1\<rparr>))),
      Call_render,
      Set_lastTime (date_now e (clock_reads s)),
      Call_requestAnimationFrame] \<and>
   snd (main e s) =
     requestAnimationFrame
       ((render e
           (snd (update e (real_of_int (date_now e (clock_reads s) - lastTime s) / 1000)
                  (s\<lparr>clock_reads := clock_reads s + 1\<rparr>))))
        \<lparr>lastTime := date_now e (clock_reads s)\<rparr>) \<and>
   lastTime (snd (main e s)) = date_now e (clock_reads s) \<and>
   frame_requests (snd (main e s)) =
     frame_requests (snd (update e (real_of_int (date_now e (clock_reads s) - lastTime s) / 1000)
                  (s\<lparr>clock_reads := clock_reads s + 1\<rparr>))) + 1"
  by (simp add: main_unfold)

text \<open>
  Claim C6. In every state, whatever the status, the first operation that render
  performs on the drawing context is the clearing of the whole surface, 505 by 606 from
  the origin; everything else it draws comes after.
\<close>

theorem render_clears_first:
  "\<exists>rest. ctx (render e s) = ctx s @ ClearRect 0 0 505 606 # rest"
  by (simp add: render_def render_calls_def canvas_width_def canvas_height_def)

text \<open>
  Claim C7. The test of checkCollisions is the overlap test of two axis-aligned
  rectangles: player.x < enemy.x + 60, player.x + 37 > enemy.x, player.y < enemy.y + 25
  and player.y + 30 > enemy.y. It holds exactly when the player's hitbox (37 by 30) and
  the enemy's hitbox (60 by 25) have a point in common. With the player at (200, 380),
  an enemy at (180, 380) is found to overlap and an enemy at (400, 380) is not.
\<close>

theorem collision_test:
  "(\<forall>p enemy. collides p enemy \<longleftrightarrow>
      pos_x p < pos_x enemy + 60 \<and> pos_x p + 37 > pos_x enemy \<and>
      pos_y p < pos_y enemy + 25 \<and> pos_y p + 30 > pos_y enemy) \<and>
   (\<forall>p enemy. collides p enemy \<longleftrightarrow> player_hitbox p \<inter> enemy_hitbox enemy \<noteq> {}) \<and>
   collides \<lparr>pos_x = 200, pos_y = 380\<rparr> \<lparr>pos_x = 180, pos_y = 380\<rparr> \<and>
   \<not> collides \<lparr>pos_x = 200, pos_y = 380\<rparr> \<lparr>pos_x = 400, pos_y = 380\<rparr>"
proof -
  have formula: "collides p enemy \<longleftrightarrow>
      pos_x p < pos_x enemy + 60 \<and> pos_x p + 37 > pos_x enemy \<and>
      pos_y p < pos_y enemy + 25 \<and> pos_y p + 30 > pos_y enemy" for p enemy
    by (simp add: collides_def add.commute)
  have meet: "collides p enemy \<longleftrightarrow> player_hitbox p \<inter> enemy_hitbox enemy \<noteq> {}" for p enemy
  proof
    assume c: "collides p enemy"
    define a where "a = (max (pos_x p) (pos_x enemy) + min (pos_x p + 37) (pos_x enemy + 60)) / 2"
    define b where "b = (max (pos_y p) (pos_y enemy) + min (pos_y p + 30) (pos_y enemy + 25)) / 2"
    have mid: "m < (m + n) / 2 \<and> (m + n) / 2 < n" if "m < n" for m n :: real
      using that by (simp add: field_simps)
    from c have hx: "max (pos_x p) (pos_x enemy) < min (pos_x p + 37) (pos_x enemy + 60)"
      and hy: "max (pos_y p) (pos_y enemy) < min (pos_y p + 30) (pos_y enemy + 25)"
      by (simp_all add: collides_def)
    have "max (pos_x p) (pos_x enemy) < a \<and> a < min (pos_x p + 37) (pos_x enemy + 60)"
      unfolding a_def using hx by (rule mid)
    moreover have "max (pos_y p) (pos_y enemy) < b \<and> b < min (pos_y p + 30) (pos_y enemy + 25)"
      unfolding b_def using hy by (rule mid)
    ultimately
    have "(a, b) \<in> player_hitbox p \<inter> enemy_hitbox enemy"
      by (simp add: player_hitbox_def enemy_hitbox_def)
    then show "player_hitbox p \<inter> enemy_hitbox enemy \<noteq> {}"
      by blast
  next
    assume "player_hitbox p \<inter> enemy_hitbox enemy \<noteq> {}"
    then obtain a b where "(a, b) \<in> player_hitbox p" and "(a, b) \<in> enemy_hitbox enemy"
      by auto
    then show "collides p enemy"
      by (simp add: player_hitbox_def enemy_hitbox_def collides_def)
  qed
  have "collides \<lparr>pos_x = 200, pos_y = 380\<rparr> \<lparr>pos_x = 180, pos_y = 380\<rparr>"
    and "\<not> collides \<lparr>pos_x = 200, pos_y = 380\<rparr> \<lparr>pos_x = 400, pos_y = 380\<rparr>"
    by (simp_all add: collides_def)
  with formula meet show ?thesis
    by blast
qed

text \<open>
  Claim C8. When the player has won in an update of status 'in game' (after the entities
  were updated and the enemies tested, the player's y is below 0), checkCollisions sets
  the status to 'game over' and calls init; init assigns the current reading of the clock
  to lastTime and calls main again; that inner main calls update, which now takes the
  'game over' branch and registers a gameoverInput, renders and requests a frame. The
  outer main then renders and requests a frame of its own: two requests where one was
  taken, and both stay queued after the next frame has run.
\<close>

theorem win_reinvokes_init:
  fixes e s
  defines "now \<equiv> date_now e (clock_reads s)"
    and "t0 \<equiv> date_now e (clock_reads s + 1)"
    and "t1 \<equiv> date_now e (clock_reads s + 2)"
  defines "dt \<equiv> real_of_int (now - lastTime s) / 1000"
  defines "s1 \<equiv> updateEntities e dt (addEventListener ''keyup'' Input (s\<lparr>clock_reads := clock_reads s + 1\<rparr>))"
  assumes "gameStatus s = InGame"
    and "pos_y (fold hit (allEnemies s1) (player s1)) < 0"
  shows "fst (main e s) =
           [Call_update dt
              [Call_updateEntities dt,
               Call_checkCollisions
                 [Call_init
                    [Set_lastTime t0,
                     Call_main
                       [Call_update (real_of_int (t1 - t0) / 1000) [], Call_render,
                        Set_lastTime t1, Call_requestAnimationFrame]]]],
            Call_render, Set_lastTime now, Call_requestAnimationFrame] \<and>
         gameStatus (snd (main e s)) = GameOver \<and>
         GameoverInput (closures s) \<in> set (listeners (snd (main e s)) ''keydown'') \<and>
         lastTime (snd (checkCollisions e s1)) = t1 \<and>
         frame_requests (snd (checkCollisions e s1)) = frame_requests s + 1 \<and>
         frame_requests (snd (main e s)) = frame_requests s + 2 \<and>
         frame_requests (step e Frame (snd (main e s))) = frame_requests s + 2"
proof -
  let ?s0 = "s\<lparr>clock_reads := clock_reads s + 1\<rparr>"
  let ?s2 = "s1\<lparr>player := (fold hit (allEnemies s1) (player s1))\<lparr>pos_x := 200, pos_y := 380\<rparr>,
                gameStatus := GameOver\<rparr>"
  have win: "pos_y (fold hit (allEnemies s1) (player s1)) < 0"
    by fact
  have s1_fields: "clock_reads s1 = clock_reads s + 1" "frame_requests s1 = frame_requests s"
    "closures s1 = closures s" "gameStatus s1 = InGame"
    using assms(6) by (simp_all add: s1_def)
  have upd: "update e dt ?s0 =
      ([Call_updateEntities dt, Call_checkCollisions (fst (checkCollisions e s1))],
       snd (checkCollisions e s1))"
    using assms(6) by (simp add: update_InGame s1_def)
  have cc: "checkCollisions e s1 = ([Call_init (fst (init e ?s2))], snd (init e ?s2))"
    using win by (rule checkCollisions_win)
  have idle: "gameStatus ?s2 \<noteq> InGame"
    by simp
  have did: "fst (init e ?s2) =
      [Set_lastTime t0,
       Call_main [Call_update (real_of_int (t1 - t0) / 1000) [], Call_render,
                  Set_lastTime t1, Call_requestAnimationFrame]]"
    by (simp add: init_idle(1) [OF idle] s1_fields t0_def t1_def)
  have trace: "fst (main e s) =
           [Call_update dt
              [Call_updateEntities dt,
               Call_checkCollisions
                 [Call_init
                    [Set_lastTime t0,
                     Call_main
                       [Call_update (real_of_int (t1 - t0) / 1000) [], Call_render,
                        Set_lastTime t1, Call_requestAnimationFrame]]]],
            Call_render, Set_lastTime now, Call_requestAnimationFrame]"
    using upd cc did by (simp add: main_unfold now_def dt_def)
  have after: "snd (main e s) =
      requestAnimationFrame ((render e (snd (init e ?s2)))\<lparr>lastTime := now\<rparr>)"
    using upd cc by (simp add: main_unfold now_def dt_def)
  have phase: "gameStatus (snd (main e s)) = GameOver"
    by (simp add: after init_idle(2) [OF idle])
  have "frame_requests (snd (init e ?s2)) = frame_requests s + 1"
    by (simp add: init_idle(7) [OF idle] s1_fields)
  then have req_cc: "frame_requests (snd (checkCollisions e s1)) = frame_requests s + 1"
    and req: "frame_requests (snd (main e s)) = frame_requests s + 2"
    by (simp_all add: cc after)
  have last: "lastTime (snd (checkCollisions e s1)) = t1"
    by (simp add: cc init_idle(3) [OF idle] s1_fields t1_def)
  have "GameoverInput (closures s) \<in> set (listeners (snd (init e ?s2)) ''keydown'')"
    by (simp add: init_unfold main_unfold update_GameOver listeners_addEventListener
        listeners_removeEventListener s1_fields)
  then have closure: "GameoverInput (closures s) \<in> set (listeners (snd (main e s)) ''keydown'')"
    by (simp add: after)
  have "gameStatus ((snd (main e s))\<lparr>frame_requests := frame_requests (snd (main e s)) - 1\<rparr>) \<noteq> InGame"
    by (simp add: phase)
  then have "frame_requests (snd (main e ((snd (main e s))\<lparr>frame_requests := frame_requests (snd (main e s)) - 1\<rparr>)))
      = frame_requests (snd (main e s)) - 1 + 1"
    by (simp add: main_idle(7))
  with req have next_frame: "frame_requests (step e Frame (snd (main e s))) = frame_requests s + 2"
    by simp
  from trace phase closure last req_cc req next_frame show ?thesis
    by blast
qed

theorem win_reinvokes_init_witness:
  "fst (main demo_env (playing \<lparr>pos_x = 200, pos_y = -35\<rparr> [\<lparr>pos_x = 0, pos_y = 60\<rparr>])) =
     [Call_update (2 / 125)
        [Call_updateEntities (2 / 125),
         Call_checkCollisions
           [Call_init
              [Set_lastTime 1048,
               Call_main
                 [Call_update (2 / 125) [], Call_render, Set_lastTime 1064,
                  Call_requestAnimationFrame]]]],
      Call_render, Set_lastTime 1032, Call_requestAnimationFrame] \<and>
   gameStatus (snd (main demo_env (playing \<lparr>pos_x = 200, pos_y = -35\<rparr> [\<lparr>pos_x = 0, pos_y = 60\<rparr>])))
     = GameOver \<and>
   frame_requests (snd (main demo_env (playing \<lparr>pos_x = 200, pos_y = -35\<rparr> [\<lparr>pos_x = 0, pos_y = 60\<rparr>])))
     = 3"
  using win_reinvokes_init [of "playing \<lparr>pos_x = 200, pos_y = -35\<rparr> [\<lparr>pos_x = 0, pos_y = 60\<rparr>]" demo_env]
  by (simp add: playing_def demo_env_def updateEntities_def addEventListener_def hit_def collides_def)

text \<open>
  Claim C9. checkCollisions never changes the enemies. When no enemy collides with the
  player and the player's y is at least 0, it changes nothing at all: the player, the
  status and lastTime are as before, it calls nothing, and the state is returned as it
  was.
\<close>

theorem checkCollisions_frame:
  "allEnemies (snd (checkCollisions e s)) = allEnemies s \<and>
   ((\<forall>enemy\<in>set (allEnemies s). \<not> collides (player s) enemy) \<and> 0 \<le> pos_y (player s) \<longrightarrow>
      player (snd (checkCollisions e s)) = player s \<and>
      gameStatus (snd (checkCollisions e s)) = gameStatus s \<and>
      lastTime (snd (checkCollisions e s)) = lastTime s \<and>
      checkCollisions e s = ([], s))"
proof (intro conjI impI)
  show "allEnemies (snd (checkCollisions e s)) = allEnemies s"
    by (rule checkCollisions_allEnemies)
next
  assume a: "(\<forall>enemy\<in>set (allEnemies s). \<not> collides (player s) enemy) \<and> 0 \<le> pos_y (player s)"
  then have same: "fold hit (allEnemies s) (player s) = player s"
    by (simp add: fold_hit_miss)
  with a have r: "checkCollisions e s = ([], s)"
    by (simp add: checkCollisions_no_win)
  then show "checkCollisions e s = ([], s)" .
  from r show "player (snd (checkCollisions e s)) = player s"
    and "gameStatus (snd (checkCollisions e s)) = gameStatus s"
    and "lastTime (snd (checkCollisions e s)) = lastTime s"
    by simp_all
qed

theorem checkCollisions_frame_witness:
  "allEnemies (snd (checkCollisions demo_env
      (playing \<lparr>pos_x = 200, pos_y = 380\<rparr> [\<lparr>pos_x = 400, pos_y = 380\<rparr>]))) =
     [\<lparr>pos_x = 400, pos_y = 380\<rparr>] \<and>
   checkCollisions demo_env (playing \<lparr>pos_x = 200, pos_y = 380\<rparr> [\<lparr>pos_x = 400, pos_y = 380\<rparr>]) =
     ([], playing \<lparr>pos_x = 200, pos_y = 380\<rparr> [\<lparr>pos_x = 400, pos_y = 380\<rparr>])"
  using checkCollisions_frame [of demo_env "playing \<lparr>pos_x = 200, pos_y = 380\<rparr> [\<lparr>pos_x = 400, pos_y = 380\<rparr>]"]
  by (simp add: playing_def collides_def)

text \<open>
  Claim C10. Nothing in the engine takes a key-down listener out: whatever happens in a
  run (the start, frames, key events), and in a call of update or of reset, every
  listener registered for key-down before is registered after. The only listener update
  ever takes out is the movement listener for key-up. With status 'new game' or
  'game over' every call of update adds one listener for key-down, a function created
  in that call.
\<close>

theorem keydown_listeners_stay:
  "set (listeners s ''keydown'') \<subseteq> set (listeners (run e os s) ''keydown'') \<and>
   set (listeners s ''keydown'') \<subseteq> set (listeners (snd (update e dt s)) ''keydown'') \<and>
   set (listeners s ''keydown'') \<subseteq> set (listeners (reset s) ''keydown'') \<and>
   (\<forall>ty l. l \<in> set (listeners s ty) \<and> l \<notin> set (listeners (snd (update e dt s)) ty) \<longrightarrow>
      ty = ''keyup'' \<and> l = Input) \<and>
   (closures_counted s \<and> gameStatus s = NewGame \<longrightarrow>
      listeners (snd (update e dt s)) ''keydown'' =
        listeners s ''keydown'' @ [StartInput (closures s)]) \<and>
   (closures_counted s \<and> gameStatus s = GameOver \<longrightarrow>
      listeners (snd (update e dt s)) ''keydown'' =
        listeners s ''keydown'' @ [GameoverInput (closures s)]) \<and>
   (closures_counted s \<longrightarrow> closures_counted (run e os s))"
proof (intro conjI allI impI)
  show "set (listeners s ''keydown'') \<subseteq> set (listeners (run e os s) ''keydown'')"
    by (rule run_keydown_kept)
  show "set (listeners s ''keydown'') \<subseteq> set (listeners (snd (update e dt s)) ''keydown'')"
    by (rule keydown_kept)
  show "set (listeners s ''keydown'') \<subseteq> set (listeners (reset s) ''keydown'')"
    by (auto simp add: reset_def Let_def listeners_addEventListener listeners_removeEventListener)
next
  fix ty l
  assume gone: "l \<in> set (listeners s ty) \<and> l \<notin> set (listeners (snd (update e dt s)) ty)"
  then have "\<not> (ty, l) \<noteq> (''keyup'', Input)"
    using other_listeners_kept(3) [of ty l s e dt] by blast
  then show "ty = ''keyup''" and "l = Input"
    by simp_all
next
  assume "closures_counted s \<and> gameStatus s = NewGame"
  then show "listeners (snd (update e dt s)) ''keydown'' = listeners s ''keydown'' @ [StartInput (closures s)]"
    by (simp add: update_NewGame_keydown)
next
  assume "closures_counted s \<and> gameStatus s = GameOver"
  then show "listeners (snd (update e dt s)) ''keydown'' = listeners s ''keydown'' @ [GameoverInput (closures s)]"
    by (simp add: update_GameOver_keydown)
next
  assume "closures_counted s"
  then show "closures_counted (run e os s)"
    by (rule run_closures_counted)
qed

theorem keydown_listeners_stay_witness:
  "StartInput 0 \<in> set (listeners (run demo_env [Frame, KeyDown 13, Frame]
       (playing \<lparr>pos_x = 200, pos_y = 380\<rparr> [])) ''keydown'') \<and>
   StartInput 0 \<in> set (listeners (reset (playing \<lparr>pos_x = 200, pos_y = 380\<rparr> [])) ''keydown'') \<and>
   listeners (snd (update demo_env 0
       ((playing \<lparr>pos_x = 200, pos_y = 380\<rparr> [])\<lparr>gameStatus := GameOver\<rparr>))) ''keydown'' =
     [StartInput 0, GameoverInput 1] \<and>
   Input \<in> set (listeners (boot \<lparr>pos_x = 200, pos_y = 380\<rparr> []) ''keyup'') \<and>
   Input \<notin> set (listeners (snd (update demo_env 0 (boot \<lparr>pos_x = 200, pos_y = 380\<rparr> []))) ''keyup'') \<and>
   closures_counted (run demo_env [Frame, KeyDown 13, Frame]
     (playing \<lparr>pos_x = 200, pos_y = 380\<rparr> []))"
proof -
  let ?s = "playing \<lparr>pos_x = 200, pos_y = 380\<rparr> []"
  let ?os = "[Frame, KeyDown 13, Frame]"
  have old: "listeners ?s ''keydown'' = [StartInput 0]"
    and counted: "closures_counted ?s"
    by (simp_all add: playing_def closures_counted_def)
  have over: "listeners (?s\<lparr>gameStatus := GameOver\<rparr>) ''keydown'' = [StartInput 0]"
    "closures_counted (?s\<lparr>gameStatus := GameOver\<rparr>) \<and> gameStatus (?s\<lparr>gameStatus := GameOver\<rparr>) = GameOver"
    "closures (?s\<lparr>gameStatus := GameOver\<rparr>) = 1"
    by (simp_all add: playing_def closures_counted_def)
  note stay = keydown_listeners_stay [of ?s demo_env ?os 0]
  note stay_over = keydown_listeners_stay [of "?s\<lparr>gameStatus := GameOver\<rparr>" demo_env ?os 0]
  from stay have "set (listeners ?s ''keydown'') \<subseteq> set (listeners (run demo_env ?os ?s) ''keydown'')"
    by (rule conjunct1)
  then have a: "StartInput 0 \<in> set (listeners (run demo_env ?os ?s) ''keydown'')"
    by (simp add: old)
  from stay have "set (listeners ?s ''keydown'') \<subseteq> set (listeners (reset ?s) ''keydown'')"
    by blast
  then have b: "StartInput 0 \<in> set (listeners (reset ?s) ''keydown'')"
    by (simp add: old)
  from stay_over over(2) have "listeners (snd (update demo_env 0 (?s\<lparr>gameStatus := GameOver\<rparr>))) ''keydown'' =
      listeners (?s\<lparr>gameStatus := GameOver\<rparr>) ''keydown'' @ [GameoverInput (closures (?s\<lparr>gameStatus := GameOver\<rparr>))]"
    by blast
  then have c: "listeners (snd (update demo_env 0 (?s\<lparr>gameStatus := GameOver\<rparr>))) ''keydown'' =
      [StartInput 0, GameoverInput 1]"
    by (simp only: over append.simps)
  from stay counted have d: "closures_counted (run demo_env ?os ?s)"
    by blast
  have e: "Input \<in> set (listeners (boot \<lparr>pos_x = 200, pos_y = 380\<rparr> []) ''keyup'')"
    and f: "Input \<notin> set (listeners (snd (update demo_env 0 (boot \<lparr>pos_x = 200, pos_y = 380\<rparr> []))) ''keyup'')"
    by (simp_all add: boot_def update.simps removeEventListener_def addEventListener_def)
  from a b c d e f show ?thesis
    by blast
qed

end
